theory Spec2Isabelle
  imports Main
begin

section \<open>The game tree of \<^verbatim>\<open>src/utils/treeReducer.ts\<close>\<close>

text \<open>
  The reducer edits a tree of chess positions in place. The embedding is by explicit state
  passing: every function takes the state and returns the new one. A JavaScript exception
  that leaves the reducer is the value \<open>Inl\<close> of a sum type.

  Numbers of the source that index arrays are modelled as \<open>int\<close>: a path is an
  \<open>int list\<close>, so that negative and out-of-range indices are inputs of the model as
  they are inputs of the code (fractional numbers and \<^verbatim>\<open>NaN\<close> are left out).
\<close>

subsection \<open>Errors\<close>

text \<open>
  \<open>TypeError\<close>: the code reads a property of \<^verbatim>\<open>undefined\<close>, which throws.
  \<open>UndefinedStored\<close>: nothing is thrown, but the code stores \<^verbatim>\<open>undefined\<close> in
  an array that the type \<^verbatim>\<open>TreeState\<close> declares to hold nodes or shapes; the state that
  results is not a \<^verbatim>\<open>TreeState\<close> any more and the model stops there.
  \<open>InvalidFen\<close>: the constructor \<^verbatim>\<open>new Chess(fen)\<close>, called outside the
  \<^verbatim>\<open>try\<close> of \<^verbatim>\<open>makeMove\<close>, throws.
\<close>

datatype js_error = TypeError | UndefinedStored | InvalidFen

subsection \<open>Data model\<close>

text \<open>\<^verbatim>\<open>Score\<close> of \<^verbatim>\<open>./score\<close>: a kind (\<^verbatim>\<open>"cp"\<close>, \<^verbatim>\<open>"mate"\<close>) and a value.\<close>

record Score =
  score_type :: string
  score_value :: int

text \<open>\<^verbatim>\<open>Move\<close> of chess.js; the reducer reads its \<^verbatim>\<open>san\<close> only.\<close>

record Move =
  move_from :: string
  move_to :: string
  san :: string

text \<open>\<^verbatim>\<open>DrawShape\<close> of chessground: \<^verbatim>\<open>dest\<close> and \<^verbatim>\<open>brush\<close> are optional.\<close>

record DrawShape =
  orig :: string
  dest :: "string option"
  brush :: "string option"

text \<open>
  Modelled from the spec: the enum \<^verbatim>\<open>Annotation\<close> of \<^verbatim>\<open>./chess\<close> is not among the
  sources; the spec names it "a symbolic quality marker (e.g.
  blunder/mistake/good/brilliant/none)".
\<close>

datatype Annotation = Annotation_None | Good | Brilliant | Mistake | Blunder

text \<open>\<^verbatim>\<open>Outcome\<close> of \<^verbatim>\<open>./db\<close>.\<close>

datatype Outcome = Unknown | WhiteWin | BlackWin | Draw

datatype Orientation = white | black

text \<open>
  \<^verbatim>\<open>TreeNode\<close>. A record cannot mention itself, so the nine fields that hold no node are
  the record \<open>NodeData\<close> and the datatype \<open>TreeNode\<close> adds \<^verbatim>\<open>children\<close>.
\<close>

record NodeData =
  fen :: string
  move :: "Move option"
  score :: "Score option"
  depth :: "int option"
  halfMoves :: int
  shapes :: "DrawShape list"
  annotation :: Annotation
  commentHTML :: string
  commentText :: string

datatype TreeNode = TreeNode (data: NodeData) (children: "TreeNode list")

text \<open>\<^verbatim>\<open>GameHeaders\<close>; the field names carry the prefix \<open>h_\<close>, optional fields are options.\<close>

record GameHeaders =
  h_id :: int
  h_fen :: string
  h_event :: string
  h_site :: string
  h_date :: "string option"
  h_time :: "string option"
  h_round :: "string option"
  h_white :: string
  h_white_elo :: "int option"
  h_black :: string
  h_black_elo :: "int option"
  h_result :: Outcome
  h_time_control :: "string option"
  h_eco :: "string option"
  h_white_material :: "int option"
  h_black_material :: "int option"
  h_start :: "int list option"
  h_orientation :: "Orientation option"

record TreeState =
  root :: TreeNode
  headers :: GameHeaders
  position :: "int list"
  dirty :: bool

subsection \<open>JavaScript arrays\<close>

text \<open>\<^verbatim>\<open>xs[i]\<close>: \<^verbatim>\<open>undefined\<close> (here \<open>None\<close>) outside \<open>0 .. length - 1\<close>.\<close>

definition js_index :: "'a list \<Rightarrow> int \<Rightarrow> 'a option" where
  "js_index xs i = (if 0 \<le> i \<and> i < int (length xs) then Some (xs ! nat i) else None)"

text \<open>\<^verbatim>\<open>xs.findIndex(p)\<close>: the first index whose element satisfies \<open>p\<close>, or \<open>-1\<close>.\<close>

fun findIndex :: "('a \<Rightarrow> bool) \<Rightarrow> 'a list \<Rightarrow> int" where
  "findIndex p [] = - 1"
| "findIndex p (x # xs) =
     (if p x then 0 else (let r = findIndex p xs in if r = - 1 then - 1 else r + 1))"

text \<open>
  \<^verbatim>\<open>xs.splice(start, 1)\<close>: a negative \<open>start\<close> counts from the end (and is clamped at
  0); at most one element is removed, none when \<open>start\<close> is past the end.
  \<open>splice_start\<close> is the index the call works at, \<open>splice_removed\<close> the array it
  returns, \<open>splice_rest\<close> the array it leaves.
\<close>

definition splice_start :: "'a list \<Rightarrow> int \<Rightarrow> nat" where
  "splice_start xs start =
     (if start < 0 then nat (max (int (length xs) + start) 0)
      else min (nat start) (length xs))"

definition splice_removed :: "'a list \<Rightarrow> int \<Rightarrow> 'a list" where
  "splice_removed xs start = take 1 (drop (splice_start xs start) xs)"

definition splice_rest :: "'a list \<Rightarrow> int \<Rightarrow> 'a list" where
  "splice_rest xs start =
     take (splice_start xs start) xs @ drop (Suc (splice_start xs start)) xs"

text \<open>\<^verbatim>\<open>xs.slice(0, -1)\<close> is \<open>butlast xs\<close>; \<^verbatim>\<open>xs.slice(0, i)\<close> is \<open>take i xs\<close>.\<close>

subsection \<open>Path addressing\<close>

text \<open>
  \<^verbatim>\<open>getNodeAtPath\<close>, lines 392-399. The recursive call receives \<^verbatim>\<open>node.children[index]\<close>,
  which is \<^verbatim>\<open>undefined\<close> for a negative index; so the first argument is an option. On
  \<^verbatim>\<open>undefined\<close> with a non-empty path, \<^verbatim>\<open>node.children\<close> throws.
\<close>

fun getNodeAtPath :: "TreeNode option \<Rightarrow> int list \<Rightarrow> js_error + TreeNode option" where
  "getNodeAtPath node [] = Inr node"
| "getNodeAtPath None (index # rest) = Inl TypeError"
| "getNodeAtPath (Some node) (index # rest) =
     (if index \<ge> int (length (children node)) then Inr (Some node)
      else getNodeAtPath (js_index (children node) index) rest)"

text \<open>
  The source returns a reference into the tree and later writes through it. A reference
  is modelled by the address of the node: the list of child indexes that leads to it from
  the root. \<open>getNodeRef\<close> follows \<^verbatim>\<open>getNodeAtPath\<close> step by step and returns the
  address together with the node.
\<close>

fun getNodeRef :: "TreeNode option \<Rightarrow> int list \<Rightarrow> js_error + (nat list \<times> TreeNode) option" where
  "getNodeRef node [] = Inr (map_option (Pair []) node)"
| "getNodeRef None (index # rest) = Inl TypeError"
| "getNodeRef (Some node) (index # rest) =
     (if index \<ge> int (length (children node)) then Inr (Some ([], node))
      else (case getNodeRef (js_index (children node) index) rest of
              Inl e \<Rightarrow> Inl e
            | Inr None \<Rightarrow> Inr None
            | Inr (Some (a, n)) \<Rightarrow> Inr (Some (nat index # a, n))))"

text \<open>Reading and writing at an address.\<close>

fun nodeAt :: "TreeNode \<Rightarrow> nat list \<Rightarrow> TreeNode option" where
  "nodeAt n [] = Some n"
| "nodeAt n (i # a) = (if i < length (children n) then nodeAt (children n ! i) a else None)"

fun updateAt :: "(TreeNode \<Rightarrow> TreeNode) \<Rightarrow> TreeNode \<Rightarrow> nat list \<Rightarrow> TreeNode" where
  "updateAt f n [] = f n"
| "updateAt f n (i # a) =
     (if i < length (children n)
      then TreeNode (data n) ((children n)[i := updateAt f (children n ! i) a])
      else n)"

definition setChildren :: "TreeNode list \<Rightarrow> TreeNode \<Rightarrow> TreeNode" where
  "setChildren cs n = TreeNode (data n) cs"

definition setData :: "NodeData \<Rightarrow> TreeNode \<Rightarrow> TreeNode" where
  "setData d n = TreeNode d (children n)"

subsection \<open>Traversal\<close>

text \<open>
  \<^verbatim>\<open>treeIterator\<close>, lines 33-42. The generator is modelled by the list of the pairs it
  yields. The work-list is a list whose head is the top of the stack: \<^verbatim>\<open>pop\<close> takes the
  head, \<^verbatim>\<open>push\<close> conses. \<open>pushChildren pos node i\<close> (\<open>pos\<close> is the \<^verbatim>\<open>position\<close> of the entry popped) is the \<^verbatim>\<open>for\<close> loop with
  \<open>i\<close> children still to push (indexes \<open>i - 1\<close> down to \<open>0\<close>).
\<close>

type_synonym ListNode = "int list \<times> TreeNode"

fun pushChildren :: "int list \<Rightarrow> TreeNode \<Rightarrow> nat \<Rightarrow> ListNode list \<Rightarrow> ListNode list" where
  "pushChildren pos node 0 stack = stack"
| "pushChildren pos node (Suc i) stack =
     pushChildren pos node i ((pos @ [int i], children node ! i) # stack)"

definition stackSize :: "ListNode list \<Rightarrow> nat" where
  "stackSize stack = sum_list (map (\<lambda>e. size (snd e)) stack)"

lemma stackSize_pushChildren:
  "i \<le> length (children node) \<Longrightarrow>
   stackSize (pushChildren pos node i stack) =
   sum_list (map size (take i (children node))) + stackSize stack"
proof (induction i arbitrary: stack)
  case 0
  then show ?case by simp
next
  case (Suc i)
  then show ?case
    by (simp add: stackSize_def take_Suc_conv_app_nth)
qed

lemma sum_size_children_less: "sum_list (map size (children node)) < size node"
proof (cases node)
  case (TreeNode d cs)
  have "sum_list (map size cs) \<le> size_list size cs"
    by (induction cs) auto
  with TreeNode show ?thesis by simp
qed

function treeIterator_loop :: "ListNode list \<Rightarrow> ListNode list" where
  "treeIterator_loop [] = []"
| "treeIterator_loop ((pos, node) # stack) =
     (pos, node) #
     treeIterator_loop (pushChildren pos node (length (children node)) stack)"
  by pat_completeness auto
termination
proof (relation "measure stackSize")
  show "wf (measure stackSize)" by simp
next
  fix pos :: "int list" and node :: TreeNode and stack :: "ListNode list"
  have "stackSize (pushChildren pos node (length (children node)) stack) =
        sum_list (map size (children node)) + stackSize stack"
    by (simp add: stackSize_pushChildren)
  moreover have "stackSize ((pos, node) # stack) = size node + stackSize stack"
    by (simp add: stackSize_def)
  ultimately show "(pushChildren pos node (length (children node)) stack,
                    (pos, node) # stack) \<in> measure stackSize"
    using sum_size_children_less [of node] by simp
qed

definition treeIterator :: "TreeNode \<Rightarrow> ListNode list" where
  "treeIterator node = treeIterator_loop [([], node)]"

text \<open>\<^verbatim>\<open>countMainPly\<close>, lines 44-52: the loop follows the first child.\<close>

fun countMainPly_loop :: "nat \<Rightarrow> TreeNode \<Rightarrow> nat" where
  "countMainPly_loop count (TreeNode d []) = count"
| "countMainPly_loop count (TreeNode d (c # cs)) = countMainPly_loop (Suc count) c"

definition countMainPly :: "TreeNode \<Rightarrow> nat" where
  "countMainPly node = countMainPly_loop 0 node"

subsection \<open>Collaborators\<close>

text \<open>
  chess.js is a library, not code of the repository: it is a parameter of the model. A
  function of type \<open>chess\<close> stands for \<^verbatim>\<open>new Chess(fen)\<close> followed by
  \<^verbatim>\<open>chess.move(move)\<close>: \<open>BadFen\<close> when the constructor throws (outside the
  \<^verbatim>\<open>try\<close>), \<open>IllegalMove\<close> when \<^verbatim>\<open>move\<close> throws (inside the \<^verbatim>\<open>try\<close>),
  \<open>Moved m f\<close> with the move \<open>m\<close> and \<^verbatim>\<open>chess.fen()\<close> \<open>f\<close> otherwise.
\<close>

datatype MoveDescriptor = MoveObject string string "string option" | MoveString string

datatype chess_result = BadFen | IllegalMove | Moved Move string

type_synonym chess = "string \<Rightarrow> MoveDescriptor \<Rightarrow> chess_result"

text \<open>
  \<^verbatim>\<open>getAnnotation\<close> of \<^verbatim>\<open>./score\<close> is not among the sources: it is a parameter of type
  \<open>classify\<close>. \<^verbatim>\<open>MoveAnalysis\<close> of \<^verbatim>\<open>./chess\<close>: the reducer reads
  \<^verbatim>\<open>best.score\<close> and \<^verbatim>\<open>novelty\<close>.
\<close>

datatype Color = Color_w | Color_b

type_synonym classify = "Score \<Rightarrow> Score \<Rightarrow> Color \<Rightarrow> Annotation"

record MoveAnalysis =
  best_score :: Score
  novelty :: bool

text \<open>
  Modelled from the spec: \<^verbatim>\<open>isPrefix\<close> of \<^verbatim>\<open>./misc\<close> is not among the sources; the
  spec reads it as "is a prefix of (or equal to)".
\<close>

fun isPrefix :: "int list \<Rightarrow> int list \<Rightarrow> bool" where
  "isPrefix [] longer = True"
| "isPrefix (x # shorter) [] = False"
| "isPrefix (x # shorter) (y # longer) = (x = y \<and> isPrefix shorter longer)"

text \<open>\<^verbatim>\<open>DEFAULT_POSITION\<close> of chess.js.\<close>

definition DEFAULT_POSITION :: string where
  "DEFAULT_POSITION = ''rnbqkbnr/pppppppp/8/8/8/8/PPPPPPPP/RNBQKBNR w KQkq - 0 1''"

subsection \<open>Construction\<close>

text \<open>\<^verbatim>\<open>defaultTree\<close>, lines 54-80, and \<^verbatim>\<open>createNode\<close>, lines 82-103.\<close>

definition defaultTree :: "string option \<Rightarrow> TreeState" where
  "defaultTree fen_arg =
     (let f = (case fen_arg of None \<Rightarrow> DEFAULT_POSITION | Some x \<Rightarrow> x) in
      \<lparr> root = TreeNode
           \<lparr> fen = f, move = None, score = None, depth = None, halfMoves = 0, shapes = [],
             annotation = Annotation_None, commentHTML = [], commentText = [] \<rparr> [],
        headers =
           \<lparr> h_id = 0, h_fen = f, h_event = [], h_site = [], h_date = None, h_time = None,
             h_round = None, h_white = [], h_white_elo = None, h_black = [],
             h_black_elo = None, h_result = Unknown, h_time_control = None, h_eco = None,
             h_white_material = None, h_black_material = None, h_start = None,
             h_orientation = None \<rparr>,
        position = [],
        dirty = False \<rparr>)"

definition createNode :: "string \<Rightarrow> Move \<Rightarrow> int \<Rightarrow> TreeNode" where
  "createNode f m h =
     TreeNode
       \<lparr> fen = f, move = Some m, score = None, depth = None, halfMoves = h, shapes = [],
         annotation = Annotation_None, commentHTML = [], commentText = [] \<rparr> []"

subsection \<open>Mutation algorithms\<close>

text \<open>
  \<^verbatim>\<open>makeMove\<close>, lines 333-358. \<^verbatim>\<open>n.move?.san === m.san\<close> is false on a node without a
  move.
\<close>

definition sameSan :: "Move \<Rightarrow> TreeNode \<Rightarrow> bool" where
  "sameSan m n = (case move (data n) of None \<Rightarrow> False | Some nm \<Rightarrow> san nm = san m)"

definition makeMove :: "chess \<Rightarrow> TreeState \<Rightarrow> MoveDescriptor \<Rightarrow> js_error + TreeState" where
  "makeMove ch state mv =
     (case getNodeRef (Some (root state)) (position state) of
        Inl e \<Rightarrow> Inl e
      | Inr None \<Rightarrow> Inr state
      | Inr (Some (a, moveNode)) \<Rightarrow>
          (case ch (fen (data moveNode)) mv of
             BadFen \<Rightarrow> Inl InvalidFen
           | IllegalMove \<Rightarrow> Inr state
           | Moved m f \<Rightarrow>
               (let i = findIndex (sameSan m) (children moveNode) in
                if i \<noteq> - 1 then Inr (state\<lparr>position := position state @ [i]\<rparr>)
                else
                  (let newMoveNode = createNode f m (halfMoves (data moveNode) + 1);
                       cs = children moveNode @ [newMoveNode]
                   in Inr (state\<lparr>root := updateAt (setChildren cs) (root state) a,
                                 position := position state @ [int (length cs) - 1]\<rparr>)))))"

text \<open>
  \<^verbatim>\<open>deleteMove\<close>, lines 360-374. \<^verbatim>\<open>findIndex((n) => n === node)\<close> compares references:
  the children of the node at address \<open>pa\<close> are the references \<open>pa @ [0]\<close>,
  \<open>pa @ [1]\<close>, ...
\<close>

definition childRefs :: "nat list \<Rightarrow> TreeNode \<Rightarrow> nat list list" where
  "childRefs pa parent = map (\<lambda>i. pa @ [i]) [0..<length (children parent)]"

definition adjustPosition :: "int list \<Rightarrow> TreeState \<Rightarrow> TreeState" where
  "adjustPosition path state =
     (if isPrefix path (position state) then state\<lparr>position := butlast path\<rparr>
      else if isPrefix (butlast path) (position state) then
        (if length (position state) = length path
         then state\<lparr>position := (position state)[length (position state) - 1 := 0]\<rparr>
         else state)
      else state)"

definition deleteMove :: "TreeState \<Rightarrow> int list \<Rightarrow> js_error + TreeState" where
  "deleteMove state path =
     (case getNodeRef (Some (root state)) path of
        Inl e \<Rightarrow> Inl e
      | Inr None \<Rightarrow> Inr state
      | Inr (Some (na, node)) \<Rightarrow>
          (case getNodeRef (Some (root state)) (butlast path) of
             Inl e \<Rightarrow> Inl e
           | Inr None \<Rightarrow> Inr state
           | Inr (Some (pa, parent)) \<Rightarrow>
               (let index = findIndex (\<lambda>n. n = na) (childRefs pa parent);
                    cs = splice_rest (children parent) index
                in Inr (adjustPosition path
                          (state\<lparr>root := updateAt (setChildren cs) (root state) pa\<rparr>)))))"

text \<open>
  \<^verbatim>\<open>promoteVariation\<close>, lines 376-390. \<^verbatim>\<open>reduceRight\<close> visits the elements from the last
  to the first, as \<open>foldr\<close> does. \<^verbatim>\<open>splice(v, 1)[0]\<close> is \<^verbatim>\<open>undefined\<close> when nothing was
  removed, and \<^verbatim>\<open>unshift\<close> then stores it among the children.
\<close>

definition reduceRight :: "('b \<Rightarrow> 'a \<Rightarrow> nat \<Rightarrow> 'b) \<Rightarrow> 'b \<Rightarrow> 'a list \<Rightarrow> 'b" where
  "reduceRight f init xs = foldr (\<lambda>(i, v) acc. f acc v i) (zip [0..<length xs] xs) init"

definition lastNonZero :: "int list \<Rightarrow> int \<times> nat" where
  "lastNonZero path = reduceRight (\<lambda>acc v i. if v = 0 then acc else (v, i)) (0, 0) path"

definition promoteVariation :: "TreeState \<Rightarrow> int list \<Rightarrow> js_error + TreeState" where
  "promoteVariation state path =
     (let (v, i) = lastNonZero path in
      if i = 0 then Inr state
      else
        (let promotablePath = take i path; path' = path[i := 0] in
         if length promotablePath = 0 then Inr state
         else
           (case getNodeRef (Some (root state)) promotablePath of
              Inl e \<Rightarrow> Inl e
            | Inr None \<Rightarrow> Inr state
            | Inr (Some (a, node)) \<Rightarrow>
                (case splice_removed (children node) v of
                   [] \<Rightarrow> Inl UndefinedStored
                 | c # _ \<Rightarrow>
                     Inr (state\<lparr>root := updateAt (setChildren (c # splice_rest (children node) v))
                                           (root state) a,
                                position := path'\<rparr>)))))"

text \<open>
  \<^verbatim>\<open>addAnalysis\<close>, lines 401-420. \<open>addAnalysis_loop cl analysis i cur\<close> is the
  \<^verbatim>\<open>while\<close> loop entered with a node \<open>cur\<close>; it returns that node as the loop leaves it.
  \<^verbatim>\<open>cur = cur.children[0]\<close> on a node without children ends the loop.
\<close>

definition analysed :: "classify \<Rightarrow> MoveAnalysis list \<Rightarrow> nat \<Rightarrow> NodeData \<Rightarrow> NodeData" where
  "analysed cl analysis i d =
     (let d1 = d\<lparr>score := Some (best_score (analysis ! i))\<rparr>;
          d2 = (if novelty (analysis ! i)
                then d1\<lparr>commentHTML := ''Novelty'', commentText := ''Novelty''\<rparr> else d1);
          prevScore = (if i > 0 then best_score (analysis ! (i - 1))
                       else \<lparr>score_type = ''cp'', score_value = 0\<rparr>);
          curScore = best_score (analysis ! i);
          color = (if i mod 2 = 0 then Color_w else Color_b)
      in d2\<lparr>annotation := cl prevScore curScore color\<rparr>)"

function addAnalysis_loop :: "classify \<Rightarrow> MoveAnalysis list \<Rightarrow> nat \<Rightarrow> TreeNode \<Rightarrow> TreeNode" where
  "addAnalysis_loop cl analysis i cur =
     (if i < length analysis then
        (let d = analysed cl analysis i (data cur) in
         case children cur of
           [] \<Rightarrow> TreeNode d []
         | c # cs \<Rightarrow> TreeNode d (addAnalysis_loop cl analysis (Suc i) c # cs))
      else cur)"
  by pat_completeness auto
termination
  by (relation "measure (\<lambda>(cl, analysis, i, cur). length analysis - i)") auto

declare addAnalysis_loop.simps [simp del]

definition addAnalysis :: "classify \<Rightarrow> TreeState \<Rightarrow> MoveAnalysis list \<Rightarrow> TreeState" where
  "addAnalysis cl state analysis =
     (case children (root state) of
        [] \<Rightarrow> state
      | c # cs \<Rightarrow>
          state\<lparr>root := TreeNode (data (root state)) (addAnalysis_loop cl analysis 0 c # cs)\<rparr>)"

text \<open>
  \<^verbatim>\<open>setShapes\<close>, lines 422-435. With an empty batch \<^verbatim>\<open>shapes[0]\<close> is \<^verbatim>\<open>undefined\<close>:
  the callback of \<^verbatim>\<open>findIndex\<close> throws at the first shape of the node, and when the node
  has no shape \<^verbatim>\<open>undefined\<close> is pushed.
\<close>

definition sameSquares :: "DrawShape \<Rightarrow> DrawShape \<Rightarrow> bool" where
  "sameSquares shape s = (orig s = orig shape \<and> dest s = dest shape)"

definition setNodeShapes :: "DrawShape list \<Rightarrow> TreeNode \<Rightarrow> TreeNode" where
  "setNodeShapes sh n = TreeNode ((data n)\<lparr>shapes := sh\<rparr>) (children n)"

definition setShapes :: "TreeState \<Rightarrow> DrawShape list \<Rightarrow> js_error + TreeState" where
  "setShapes state batch =
     (case getNodeRef (Some (root state)) (position state) of
        Inl e \<Rightarrow> Inl e
      | Inr None \<Rightarrow> Inr state
      | Inr (Some (a, node)) \<Rightarrow>
          (case js_index batch 0 of
             None \<Rightarrow> (if shapes (data node) = [] then Inl UndefinedStored else Inl TypeError)
           | Some shape \<Rightarrow>
               (let index = findIndex (sameSquares shape) (shapes (data node));
                    sh = (if index \<noteq> - 1 then splice_rest (shapes (data node)) index
                          else shapes (data node) @ [shape])
                in Inr (state\<lparr>root := updateAt (setNodeShapes sh) (root state) a\<rparr>))))"

subsection \<open>The action dispatcher\<close>

text \<open>\<^verbatim>\<open>TreeAction\<close>, lines 164-195.\<close>

datatype TreeAction =
    SAVE
  | SET_STATE TreeState
  | RESET
  | SET_HEADERS GameHeaders
  | SET_ORIENTATION Orientation
  | SET_START "int list"
  | MAKE_MOVE MoveDescriptor
  | MAKE_MOVES "string list"
  | GO_TO_START
  | GO_TO_END
  | GO_TO_NEXT
  | GO_TO_PREVIOUS
  | GO_TO_MOVE "int list"
  | DELETE_MOVE "int list option"
  | SET_ANNOTATION Annotation
  | SET_COMMENT string string
  | SET_FEN string
  | SET_SCORE Score
  | SET_OUTCOME Outcome
  | SET_SHAPES "DrawShape list"
  | ADD_ANALYSIS "MoveAnalysis list"
  | PROMOTE_VARIATION "int list"

text \<open>The loop of \<^verbatim>\<open>MAKE_MOVES\<close>, lines 233-235; an exception ends it.\<close>

fun makeMoves :: "chess \<Rightarrow> TreeState \<Rightarrow> string list \<Rightarrow> js_error + TreeState" where
  "makeMoves ch state [] = Inr state"
| "makeMoves ch state (mv # rest) =
     (case makeMove ch state (MoveString mv) of
        Inl e \<Rightarrow> Inl e
      | Inr state' \<Rightarrow> makeMoves ch state' rest)"

text \<open>The loop of \<^verbatim>\<open>GO_TO_END\<close>, lines 243-248.\<close>

fun goToEnd_loop :: "int list \<Rightarrow> TreeNode \<Rightarrow> int list" where
  "goToEnd_loop endPosition (TreeNode d []) = endPosition"
| "goToEnd_loop endPosition (TreeNode d (c # cs)) = goToEnd_loop (endPosition @ [0]) c"

text \<open>
  The three actions that write one field of the node at the current path, lines 274-314:
  the node is looked up, and written when it is not \<^verbatim>\<open>undefined\<close>.
\<close>

definition editCurrent :: "(NodeData \<Rightarrow> NodeData) \<Rightarrow> TreeState \<Rightarrow> js_error + TreeState" where
  "editCurrent f state =
     (case getNodeRef (Some (root state)) (position state) of
        Inl e \<Rightarrow> Inl e
      | Inr None \<Rightarrow> Inr state
      | Inr (Some (a, node)) \<Rightarrow>
          Inr (state\<lparr>root := updateAt (setData (f (data node))) (root state) a\<rparr>))"

text \<open>
  \<^verbatim>\<open>treeReducer\<close>, lines 197-331. The result is the state after the dispatch: the value
  the reducer returns (\<^verbatim>\<open>SET_STATE\<close>, \<^verbatim>\<open>RESET\<close>), and for the cases that end in
  \<^verbatim>\<open>break\<close> the state they have written to. The switch has no case for
  \<^verbatim>\<open>SET_OUTCOME\<close>. A payload is taken to be an object of its own, not an alias of a
  part of the state.
\<close>

fun treeReducer :: "chess \<Rightarrow> classify \<Rightarrow> TreeState \<Rightarrow> TreeAction \<Rightarrow> js_error + TreeState" where
  "treeReducer ch cl state (SET_STATE payload) = Inr payload"
| "treeReducer ch cl state SAVE = Inr (state\<lparr>dirty := False\<rparr>)"
| "treeReducer ch cl state RESET = Inr (defaultTree None)"
| "treeReducer ch cl state (SET_HEADERS payload) =
     Inr (state\<lparr>dirty := True, headers := payload\<rparr>)"
| "treeReducer ch cl state (SET_ORIENTATION payload) =
     Inr (state\<lparr>dirty := True, headers := (headers state)\<lparr>h_orientation := Some payload\<rparr>\<rparr>)"
| "treeReducer ch cl state (SET_START payload) =
     Inr (state\<lparr>dirty := True, headers := (headers state)\<lparr>h_start := Some payload\<rparr>\<rparr>)"
| "treeReducer ch cl state (MAKE_MOVE payload) = makeMove ch (state\<lparr>dirty := True\<rparr>) payload"
| "treeReducer ch cl state (MAKE_MOVES payload) = makeMoves ch (state\<lparr>dirty := True\<rparr>) payload"
| "treeReducer ch cl state GO_TO_START = Inr (state\<lparr>position := []\<rparr>)"
| "treeReducer ch cl state GO_TO_END = Inr (state\<lparr>position := goToEnd_loop [] (root state)\<rparr>)"
| "treeReducer ch cl state GO_TO_NEXT =
     (case getNodeAtPath (Some (root state)) (position state) of
        Inl e \<Rightarrow> Inl e
      | Inr None \<Rightarrow> Inr state
      | Inr (Some node) \<Rightarrow>
          (if length (children node) > 0 then Inr (state\<lparr>position := position state @ [0]\<rparr>)
           else Inr state))"
| "treeReducer ch cl state GO_TO_PREVIOUS =
     (if length (position state) \<noteq> 0 then Inr (state\<lparr>position := butlast (position state)\<rparr>)
      else Inr state)"
| "treeReducer ch cl state (GO_TO_MOVE payload) = Inr (state\<lparr>position := payload\<rparr>)"
| "treeReducer ch cl state (DELETE_MOVE payload) =
     deleteMove (state\<lparr>dirty := True\<rparr>)
       (case payload of None \<Rightarrow> position state | Some path \<Rightarrow> path)"
| "treeReducer ch cl state (SET_ANNOTATION payload) =
     editCurrent
       (\<lambda>d. if annotation d = payload then d\<lparr>annotation := Annotation_None\<rparr>
            else d\<lparr>annotation := payload\<rparr>)
       (state\<lparr>dirty := True\<rparr>)"
| "treeReducer ch cl state (SET_COMMENT html txt) =
     editCurrent (\<lambda>d. d\<lparr>commentHTML := html, commentText := txt\<rparr>) (state\<lparr>dirty := True\<rparr>)"
| "treeReducer ch cl state (SET_FEN payload) =
     Inr (state\<lparr>dirty := True, root := root (defaultTree (Some payload)), position := []\<rparr>)"
| "treeReducer ch cl state (SET_SCORE payload) =
     editCurrent (\<lambda>d. d\<lparr>score := Some payload\<rparr>) (state\<lparr>dirty := True\<rparr>)"
| "treeReducer ch cl state (ADD_ANALYSIS payload) =
     Inr (addAnalysis cl (state\<lparr>dirty := True\<rparr>) payload)"
| "treeReducer ch cl state (SET_SHAPES payload) = setShapes (state\<lparr>dirty := True\<rparr>) payload"
| "treeReducer ch cl state (PROMOTE_VARIATION payload) =
     promoteVariation (state\<lparr>dirty := True\<rparr>) payload"
| "treeReducer ch cl state (SET_OUTCOME payload) = Inr state"

subsection \<open>Notions used to state the properties\<close>

text \<open>
  \<open>walk r p\<close> is the node that the path \<open>p\<close> addresses in the tree \<open>r\<close> when every
  index of \<open>p\<close> is in range, and \<open>None\<close> otherwise: a path is fully resolvable when
  \<open>walk\<close> gives a node.
\<close>

fun walk :: "TreeNode \<Rightarrow> int list \<Rightarrow> TreeNode option" where
  "walk n [] = Some n"
| "walk n (i # rest) =
     (case js_index (children n) i of None \<Rightarrow> None | Some c \<Rightarrow> walk c rest)"

text \<open>\<open>removeChild k\<close> takes the child of index \<open>k\<close>, with its subtree, out of a node.\<close>

definition removeChild :: "nat \<Rightarrow> TreeNode \<Rightarrow> TreeNode" where
  "removeChild k parent =
     TreeNode (data parent) (take k (children parent) @ drop (Suc k) (children parent))"

text \<open>
  The markers of a node after two toggles of the marker \<open>m\<close>, when at most one marker of
  the node has the squares of \<open>m\<close>: the list as it was when none has them, and otherwise
  the list without that marker, followed by \<open>m\<close>.
\<close>

definition toggledTwice :: "DrawShape \<Rightarrow> DrawShape list \<Rightarrow> DrawShape list" where
  "toggledTwice m sh =
     (if \<exists>x \<in> set sh. sameSquares m x then filter (\<lambda>x. \<not> sameSquares m x) sh @ [m] else sh)"

text \<open>One toggle, on the list of markers, as \<^verbatim>\<open>setShapes\<close> computes it.\<close>

definition toggled :: "DrawShape \<Rightarrow> DrawShape list \<Rightarrow> DrawShape list" where
  "toggled m sh =
     (if findIndex (sameSquares m) sh \<noteq> - 1 then splice_rest sh (findIndex (sameSquares m) sh)
      else sh @ [m])"

fun removeFirst :: "('a \<Rightarrow> bool) \<Rightarrow> 'a list \<Rightarrow> 'a list" where
  "removeFirst p [] = []"
| "removeFirst p (x # xs) = (if p x then xs else x # removeFirst p xs)"

text \<open>
  \<open>dataAt r a\<close> is the record of the node at the address \<open>a\<close> of the tree \<open>r\<close>; two
  trees with the same \<open>dataAt\<close> at every address are the same tree (\<open>dataAt_ext\<close>
  below).
\<close>

definition dataAt :: "TreeNode \<Rightarrow> nat list \<Rightarrow> NodeData option" where
  "dataAt r a = map_option data (nodeAt r a)"

text \<open>
  What \<open>addAnalysis_loop\<close>, entered with the index \<open>i\<close>, does to the record at the
  address \<open>a\<close> below the node it is entered with.
\<close>

definition mainlineData ::
  "classify \<Rightarrow> MoveAnalysis list \<Rightarrow> nat \<Rightarrow> nat list \<Rightarrow> NodeData \<Rightarrow> NodeData"
where
  "mainlineData cl an i a d =
     (if a = replicate (length a) 0 \<and> i + length a < length an
      then analysed cl an (i + length a) d else d)"

text \<open>Two dispatches of \<^verbatim>\<open>SET_SHAPES\<close> in succession.\<close>

definition toggleTwice ::
  "chess \<Rightarrow> classify \<Rightarrow> TreeState \<Rightarrow> DrawShape list \<Rightarrow> DrawShape list \<Rightarrow> js_error + TreeState"
where
  "toggleTwice ch cl state batch1 batch2 =
     (case treeReducer ch cl state (SET_SHAPES batch1) of
        Inl e \<Rightarrow> Inl e
      | Inr state1 \<Rightarrow> treeReducer ch cl state1 (SET_SHAPES batch2))"

subsection \<open>Sample data\<close>

text \<open>
  The tree of the spec's scenario 3: the root has the children A ("e4") and B ("d4"), and A
  has the child A1 ("e5").
\<close>

definition sampleMove :: "string \<Rightarrow> Move" where
  "sampleMove s = \<lparr>move_from = [], move_to = [], san = s\<rparr>"

definition nodeA1 :: TreeNode where
  "nodeA1 = createNode ''fenA1'' (sampleMove ''e5'') 2"

definition nodeA :: TreeNode where
  "nodeA = setChildren [nodeA1] (createNode ''fenA'' (sampleMove ''e4'') 1)"

definition nodeB :: TreeNode where
  "nodeB = createNode ''fenB'' (sampleMove ''d4'') 1"

definition sampleState :: TreeState where
  "sampleState =
     (defaultTree None)\<lparr>root := setChildren [nodeA, nodeB] (root (defaultTree None))\<rparr>"

definition dirtyState :: TreeState where
  "dirtyState = sampleState\<lparr>dirty := True\<rparr>"

text \<open>A rule collaborator that rejects every move, and a classification.\<close>

definition rejectAll :: chess where
  "rejectAll f mv = IllegalMove"

definition sampleClassify :: classify where
  "sampleClassify prev cur color = (if color = Color_w then Good else Mistake)"

text \<open>Two markers on the same squares that differ in the brush.\<close>

definition redShape :: DrawShape where
  "redShape = \<lparr>orig = ''e2'', dest = Some ''e4'', brush = Some ''red''\<rparr>"

definition greenShape :: DrawShape where
  "greenShape = \<lparr>orig = ''e2'', dest = Some ''e4'', brush = Some ''green''\<rparr>"

definition shapedState :: "DrawShape list \<Rightarrow> TreeState" where
  "shapedState sh = (defaultTree None)\<lparr>root := setNodeShapes sh (root (defaultTree None))\<rparr>"

text \<open>An analysis of two plies; the second is a novelty.\<close>

definition sampleAnalysis :: "MoveAnalysis list" where
  "sampleAnalysis =
     [\<lparr>best_score = \<lparr>score_type = ''cp'', score_value = 30\<rparr>, novelty = False\<rparr>,
      \<lparr>best_score = \<lparr>score_type = ''cp'', score_value = - 50\<rparr>, novelty = True\<rparr>]"

section \<open>Lemmas\<close>

subsection \<open>Sample data\<close>

lemma children_sample: "children (root sampleState) = [nodeA, nodeB]"
  by (simp add: sampleState_def setChildren_def)

lemma children_nodeA: "children nodeA = [nodeA1]"
  by (simp add: nodeA_def setChildren_def)

lemma children_nodeA1: "children nodeA1 = []"
  by (simp add: nodeA1_def createNode_def)

lemma children_nodeB: "children nodeB = []"
  by (simp add: nodeB_def createNode_def)

lemma treeIterator_sample:
  "treeIterator (root sampleState) =
     [([], root sampleState), ([0], nodeA), ([0, 0], nodeA1), ([1], nodeB)]"
  by (simp add: treeIterator_def children_sample children_nodeA children_nodeA1 children_nodeB
        numeral_2_eq_2)

subsection \<open>References\<close>

lemma getNodeRef_None: "getNodeRef None p \<noteq> Inr (Some x)"
  by (cases p) auto

text \<open>\<open>getNodeRef\<close> returns what \<open>getNodeAtPath\<close> returns, with its address.\<close>

lemma getNodeAtPath_getNodeRef:
  "getNodeAtPath x p =
   (case getNodeRef x p of
      Inl e \<Rightarrow> Inl e
    | Inr None \<Rightarrow> Inr None
    | Inr (Some (a, n)) \<Rightarrow> Inr (Some n))"
  by (induction x p rule: getNodeRef.induct) (auto split: sum.splits option.splits)

text \<open>The address is the place of the node in the tree.\<close>

lemma getNodeRef_nodeAt:
  "getNodeRef (Some r) p = Inr (Some (a, n)) \<Longrightarrow> nodeAt r a = Some n"
proof (induction p arbitrary: r a)
  case Nil
  then show ?case by auto
next
  case (Cons index rest)
  show ?case
  proof (cases "index \<ge> int (length (children r))")
    case True
    with Cons.prems show ?thesis by auto
  next
    case False
    with Cons.prems obtain a' c where
      c: "js_index (children r) index = Some c" and
      ref: "getNodeRef (Some c) rest = Inr (Some (a', n))" and a: "a = nat index # a'"
      by (cases "js_index (children r) index")
        (auto simp: getNodeRef_None split: sum.splits option.splits)
    from c have idx: "0 \<le> index" "index < int (length (children r))"
      "c = children r ! nat index"
      by (auto simp: js_index_def split: if_splits)
    from Cons.IH [OF ref] idx a show ?thesis by auto
  qed
qed

lemma walk_getNodeRef:
  "walk r p = Some n \<Longrightarrow> getNodeRef (Some r) p = Inr (Some (map nat p, n))"
proof (induction p arbitrary: r)
  case Nil
  then show ?case by simp
next
  case (Cons i p)
  then obtain c where c: "js_index (children r) i = Some c" and w: "walk c p = Some n"
    by (auto split: option.splits)
  from c have "i < int (length (children r))"
    by (auto simp: js_index_def split: if_splits)
  with Cons.IH [OF w] c show ?case by simp
qed

lemma walk_getNodeAtPath:
  "walk r p = Some n \<Longrightarrow> getNodeAtPath (Some r) p = Inr (Some n)"
  by (simp add: getNodeAtPath_getNodeRef walk_getNodeRef)

lemma walk_append:
  "walk r (p @ [i]) = (case walk r p of None \<Rightarrow> None | Some n \<Rightarrow> js_index (children n) i)"
  by (induction p arbitrary: r) (auto split: option.splits)

subsection \<open>Traversal\<close>

lemma set_pushChildren:
  "set (pushChildren pos node k stack) =
   (\<lambda>i. (pos @ [int i], children node ! i)) ` {..<k} \<union> set stack"
  by (induction k arbitrary: stack) (auto simp: lessThan_Suc)

text \<open>Invariant of the work-list: every entry pairs a node with a path that walks to it.\<close>

lemma treeIterator_loop_walk:
  "(\<And>p n. (p, n) \<in> set stack \<Longrightarrow> walk r p = Some n) \<Longrightarrow>
   (p, n) \<in> set (treeIterator_loop stack) \<Longrightarrow> walk r p = Some n"
proof (induction stack arbitrary: p n rule: treeIterator_loop.induct)
  case 1
  then show ?case by simp
next
  case (2 pos node stack)
  have top: "walk r pos = Some node" using "2.prems"(1) by simp
  have inv: "walk r q = Some m"
    if "(q, m) \<in> set (pushChildren pos node (length (children node)) stack)" for q m
  proof -
    from that consider i where "i < length (children node)" "q = pos @ [int i]"
      "m = children node ! i" | "(q, m) \<in> set stack"
      by (auto simp: set_pushChildren)
    then show ?thesis
    proof cases
      case 1
      with top show ?thesis by (simp add: walk_append js_index_def)
    next
      case 2
      with "2.prems"(1) show ?thesis by simp
    qed
  qed
  from "2.prems"(2) consider "(p, n) = (pos, node)"
    | "(p, n) \<in> set (treeIterator_loop (pushChildren pos node (length (children node)) stack))"
    by auto
  then show ?case
  proof cases
    case 1
    with top show ?thesis by simp
  next
    case 2
    from "2.IH" [OF inv 2] show ?thesis by simp
  qed
qed

subsection \<open>Arrays\<close>

lemma findIndex_ge: "- 1 \<le> findIndex p xs"
  by (induction xs) (auto simp: Let_def)

lemma findIndex_none: "(findIndex p xs = - 1) = (\<forall>x \<in> set xs. \<not> p x)"
proof (induction xs)
  case Nil
  then show ?case by simp
next
  case (Cons x xs)
  have "- 1 \<le> findIndex p xs" by (rule findIndex_ge)
  with Cons show ?case by (auto simp: Let_def)
qed

lemma findIndex_eqI:
  "k < length xs \<Longrightarrow> p (xs ! k) \<Longrightarrow> (\<And>j. j < k \<Longrightarrow> \<not> p (xs ! j)) \<Longrightarrow>
   findIndex p xs = int k"
proof (induction xs arbitrary: k)
  case Nil
  then show ?case by simp
next
  case (Cons x xs)
  show ?case
  proof (cases k)
    case 0
    with Cons.prems show ?thesis by simp
  next
    case (Suc k')
    with Cons.prems have "\<not> p x" by force
    moreover have "findIndex p xs = int k'"
    proof (rule Cons.IH)
      show "k' < length xs" using Cons.prems Suc by simp
      show "p (xs ! k')" using Cons.prems Suc by simp
      show "\<not> p (xs ! j)" if "j < k'" for j
        using Cons.prems(3) [of "Suc j"] that Suc by simp
    qed
    ultimately show ?thesis using Suc by (simp add: Let_def)
  qed
qed

lemma findIndex_childRefs:
  "k < length (children parent) \<Longrightarrow>
   findIndex (\<lambda>x. x = pa @ [k]) (childRefs pa parent) = int k"
  by (rule findIndex_eqI) (auto simp: childRefs_def)

lemma findIndex_childRefs_self: "findIndex (\<lambda>x. x = pa) (childRefs pa parent) = - 1"
  by (auto simp: findIndex_none childRefs_def)

lemma splice_rest_last: "splice_rest xs (- 1) = butlast xs"
proof (cases "xs = []")
  case True
  then show ?thesis by (simp add: splice_rest_def splice_start_def)
next
  case False
  then have "nat (max (int (length xs) + - 1) 0) = length xs - 1" by (cases xs) auto
  with False show ?thesis
    by (simp add: splice_rest_def splice_start_def butlast_conv_take)
qed

lemma splice_rest_at:
  "0 \<le> i \<Longrightarrow> nat i < length xs \<Longrightarrow>
   splice_rest xs i = take (nat i) xs @ drop (Suc (nat i)) xs"
  by (simp add: splice_rest_def splice_start_def)

subsection \<open>Writing through a reference\<close>

lemma updateAt_cong_at:
  "nodeAt r a = Some n \<Longrightarrow> f n = g n \<Longrightarrow> updateAt f r a = updateAt g r a"
  by (induction a arbitrary: r) (auto split: if_splits)

lemma walk_snoc_Some:
  "walk r (q @ [k]) = Some n \<Longrightarrow>
   \<exists>parent. walk r q = Some parent \<and> 0 \<le> k \<and> nat k < length (children parent) \<and>
     n = children parent ! nat k"
  by (auto simp: walk_append js_index_def split: option.splits if_splits)

subsection \<open>Markers\<close>

lemma findIndex_lt: "findIndex p xs < int (length xs)"
  by (induction xs) (auto simp: Let_def)

lemma splice_rest_Cons_Suc:
  "0 \<le> i \<Longrightarrow> splice_rest (x # xs) (i + 1) = x # splice_rest xs i"
  by (auto simp: splice_rest_def splice_start_def nat_add_distrib min_def)

lemma splice_rest_findIndex:
  "findIndex p xs \<noteq> - 1 \<Longrightarrow> splice_rest xs (findIndex p xs) = removeFirst p xs"
proof (induction xs)
  case Nil
  then show ?case by simp
next
  case (Cons x xs)
  show ?case
  proof (cases "p x")
    case True
    then show ?thesis by (simp add: splice_rest_def splice_start_def)
  next
    case False
    with Cons.prems have ne: "findIndex p xs \<noteq> - 1" by (auto simp: Let_def)
    with findIndex_ge [of p xs] have "0 \<le> findIndex p xs" by linarith
    with False ne Cons.IH show ?thesis
      by (simp add: Let_def splice_rest_Cons_Suc)
  qed
qed

lemma removeFirst_unique:
  "length (filter p xs) \<le> 1 \<Longrightarrow> removeFirst p xs = filter (\<lambda>x. \<not> p x) xs"
proof (induction xs)
  case Nil
  then show ?case by simp
next
  case (Cons x xs)
  show ?case
  proof (cases "p x")
    case True
    with Cons.prems have "filter p xs = []" by simp
    then have "filter (\<lambda>x. \<not> p x) xs = xs"
      by (induction xs) (auto split: if_splits)
    with True show ?thesis by simp
  next
    case False
    with Cons show ?thesis by simp
  qed
qed

lemma removeFirst_append_absent:
  "\<forall>x \<in> set xs. \<not> p x \<Longrightarrow> p y \<Longrightarrow> removeFirst p (xs @ [y]) = xs"
  by (induction xs) auto

lemma toggled_toggled:
  assumes "length (filter (sameSquares m) sh) \<le> 1"
  shows "toggled m (toggled m sh) = toggledTwice m sh"
proof (cases "\<exists>x \<in> set sh. sameSquares m x")
  case True
  then have f: "findIndex (sameSquares m) sh \<noteq> - 1" by (simp add: findIndex_none)
  then have t1: "toggled m sh = filter (\<lambda>x. \<not> sameSquares m x) sh"
    by (simp add: toggled_def splice_rest_findIndex removeFirst_unique [OF assms])
  have "findIndex (sameSquares m) (filter (\<lambda>x. \<not> sameSquares m x) sh) = - 1"
    by (simp add: findIndex_none)
  with t1 True show ?thesis by (simp add: toggled_def toggledTwice_def)
next
  case False
  then have f: "findIndex (sameSquares m) sh = - 1" by (simp add: findIndex_none)
  then have t1: "toggled m sh = sh @ [m]" by (simp add: toggled_def)
  have mm: "sameSquares m m" by (simp add: sameSquares_def)
  then have f2: "findIndex (sameSquares m) (sh @ [m]) \<noteq> - 1" by (simp add: findIndex_none)
  have "removeFirst (sameSquares m) (sh @ [m]) = sh"
    using False mm by (simp add: removeFirst_append_absent)
  with t1 f2 False show ?thesis
    by (simp add: toggled_def toggledTwice_def splice_rest_findIndex)
qed

lemma getNodeRef_updateAt:
  "getNodeRef (Some r) p = Inr (Some (a, n)) \<Longrightarrow> (\<And>x. children (f x) = children x) \<Longrightarrow>
   getNodeRef (Some (updateAt f r a)) p = Inr (Some (a, f n))"
proof (induction p arbitrary: r a)
  case Nil
  then show ?case by auto
next
  case (Cons index rest)
  show ?case
  proof (cases "index \<ge> int (length (children r))")
    case True
    with Cons.prems show ?thesis by auto
  next
    case False
    with Cons.prems(1) obtain a' c where
      c: "js_index (children r) index = Some c" and
      ref: "getNodeRef (Some c) rest = Inr (Some (a', n))" and a: "a = nat index # a'"
      by (cases "js_index (children r) index")
        (auto simp: getNodeRef_None split: sum.splits option.splits)
    from c have idx: "0 \<le> index" "nat index < length (children r)"
      "c = children r ! nat index"
      by (auto simp: js_index_def split: if_splits)
    have "getNodeRef (Some (updateAt f c a')) rest = Inr (Some (a', f n))"
      using Cons.IH [OF ref Cons.prems(2)] .
    with idx a False show ?thesis by (simp add: js_index_def)
  qed
qed

lemma updateAt_updateAt: "updateAt g (updateAt f r a) a = updateAt (\<lambda>x. g (f x)) r a"
  by (induction a arbitrary: r) auto

lemma updateAt_same: "nodeAt r a = Some n \<Longrightarrow> f n = n \<Longrightarrow> updateAt f r a = r"
proof (induction a arbitrary: r n)
  case Nil
  then show ?case by simp
next
  case (Cons i a)
  then show ?case by (cases r) (auto split: if_splits simp: list_update_same_conv)
qed

lemma setShapes_toggled:
  "getNodeRef (Some (root s)) (position s) = Inr (Some (a, n)) \<Longrightarrow>
   setShapes s (m # rest) =
     Inr (s\<lparr>root := updateAt (setNodeShapes (toggled m (shapes (data n)))) (root s) a\<rparr>)"
  by (simp add: setShapes_def js_index_def toggled_def Let_def)


subsection \<open>Analysis\<close>

text \<open>A tree is determined by the records at its addresses.\<close>

lemma dataAt_ext: "(\<And>a. dataAt r a = dataAt r' a) \<Longrightarrow> r = r'"
proof (induction r arbitrary: r')
  case (TreeNode d cs)
  obtain d' cs' where r': "r' = TreeNode d' cs'" by (cases r')
  have d: "d = d'"
    using TreeNode.prems [of "[]"] r' by (simp add: dataAt_def)
  have len: "length cs = length cs'"
  proof (rule ccontr)
    assume ne: "length cs \<noteq> length cs'"
    let ?i = "min (length cs) (length cs')"
    from ne TreeNode.prems [of "[?i]"] r' show False
      by (auto simp: dataAt_def min_def split: if_splits)
  qed
  have "cs ! i = cs' ! i" if i: "i < length cs" for i
  proof (rule TreeNode.IH)
    show "cs ! i \<in> set cs" using i by simp
    show "dataAt (cs ! i) a = dataAt (cs' ! i) a" for a
      using TreeNode.prems [of "i # a"] r' i len by (simp add: dataAt_def)
  qed
  with len have "cs = cs'" by (simp add: nth_equalityI)
  with d r' show ?case by simp
qed

lemma countMainPly_loop_add: "countMainPly_loop (c + k) r = k + countMainPly_loop c r"
  by (induction c r arbitrary: k rule: countMainPly_loop.induct)
    (simp_all add: add_Suc [symmetric] del: add_Suc)

lemma mainline_exists:
  "(nodeAt r (replicate k 0) \<noteq> None) = (k \<le> countMainPly r)"
proof (induction k arbitrary: r)
  case 0
  then show ?case by simp
next
  case (Suc k)
  obtain d cs where r: "r = TreeNode d cs" by (cases r)
  show ?case
  proof (cases cs)
    case Nil
    with r show ?thesis by (simp add: countMainPly_def)
  next
    case (Cons c cs')
    have "countMainPly_loop (0 + 1) c = 1 + countMainPly_loop 0 c"
      by (rule countMainPly_loop_add)
    with Suc.IH [of c] r Cons show ?thesis by (simp add: countMainPly_def)
  qed
qed

lemma mainlineData_Cons_0: "mainlineData cl an i (0 # a) = mainlineData cl an (Suc i) a"
  by (rule ext) (simp add: mainlineData_def)

lemma mainlineData_Cons_Suc: "mainlineData cl an i (Suc j # a) d = d"
  by (simp add: mainlineData_def)

lemma mainlineData_done: "length an \<le> i \<Longrightarrow> mainlineData cl an i a d = d"
  by (simp add: mainlineData_def)

lemma mainlineData_Nil:
  "i < length an \<Longrightarrow> mainlineData cl an i [] d = analysed cl an i d"
  by (simp add: mainlineData_def)

lemma dataAt_addAnalysis_loop:
  "dataAt (addAnalysis_loop cl an i cur) a = map_option (mainlineData cl an i a) (dataAt cur a)"
proof (induction cl an i cur arbitrary: a rule: addAnalysis_loop.induct)
  case (1 cl an i cur)
  show ?case
  proof (cases "i < length an")
    case False
    then have "addAnalysis_loop cl an i cur = cur"
      by (simp add: addAnalysis_loop.simps [of cl an i cur])
    with False show ?thesis
      by (simp add: mainlineData_done dataAt_def option.map_ident cong: option.map_cong)
  next
    case True
    note lt = this
    show ?thesis
    proof (cases "children cur")
      case Nil
      with lt have "addAnalysis_loop cl an i cur = TreeNode (analysed cl an i (data cur)) []"
        by (simp add: addAnalysis_loop.simps [of cl an i cur])
      with lt Nil show ?thesis
        by (cases a) (simp_all add: dataAt_def mainlineData_Nil)
    next
      case (Cons c cs)
      note IH = "1.IH" [OF lt refl Cons]
      from lt Cons have unf: "addAnalysis_loop cl an i cur =
          TreeNode (analysed cl an i (data cur)) (addAnalysis_loop cl an (Suc i) c # cs)"
        by (simp add: addAnalysis_loop.simps [of cl an i cur])
      show ?thesis
      proof (cases a)
        case Nil
        with lt unf show ?thesis by (simp add: dataAt_def mainlineData_Nil)
      next
        case (Cons j a')
        show ?thesis
        proof (cases j)
          case 0
          with unf \<open>children cur = c # cs\<close> Cons IH [of a'] show ?thesis
            by (simp add: dataAt_def mainlineData_Cons_0)
        next
          case (Suc j')
          with unf \<open>children cur = c # cs\<close> Cons show ?thesis
            by (simp add: dataAt_def mainlineData_Cons_Suc option.map_ident
                cong: option.map_cong)
        qed
      qed
    qed
  qed
qed

lemma analysed_explicit:
  "analysed cl an i d =
     d\<lparr>score := Some (best_score (an ! i)),
       annotation :=
         cl (if i = 0 then \<lparr>score_type = ''cp'', score_value = 0\<rparr> else best_score (an ! (i - 1)))
            (best_score (an ! i)) (if even i then Color_w else Color_b),
       commentHTML := (if novelty (an ! i) then ''Novelty'' else commentHTML d),
       commentText := (if novelty (an ! i) then ''Novelty'' else commentText d)\<rparr>"
  by (simp add: analysed_def Let_def even_iff_mod_2_eq_zero)

section \<open>The claims\<close>

text \<open>
  C1. The claim: \<^verbatim>\<open>PROMOTE_VARIATION\<close> with a path that has a nonzero index moves the
  child at the deepest nonzero index to the front, and with \<open>root.children = [A, B]\<close> and
  the path \<open>[1]\<close> it gives \<open>[B, A]\<close> and the current path \<open>[0]\<close>. The code at this
  input: \<^verbatim>\<open>reduceRight\<close> ends on the index 0, which the code takes for "no nonzero
  index", and it returns; the children stay \<open>[A, B]\<close> and the current path stays \<open>[]\<close>.
\<close>

theorem promoteVariation_path_1_unchanged:
  "children (root sampleState) = [nodeA, nodeB] \<and>
   position sampleState = [] \<and>
   lastNonZero [1] = (1, 0) \<and>
   treeReducer ch cl sampleState (PROMOTE_VARIATION [1]) = Inr (sampleState\<lparr>dirty := True\<rparr>)"
  by (simp add: promoteVariation_def lastNonZero_def reduceRight_def children_sample)
    (simp add: sampleState_def defaultTree_def)

text \<open>
  C2 (amended). The claim: \<^verbatim>\<open>MAKE_MOVE\<close> with a move that the rule collaborator
  rejects leaves the whole state, the dirty flag included, unchanged. The reducer sets the
  dirty flag before it calls \<^verbatim>\<open>makeMove\<close>, as it does for every editing action. As
  amended: when the current path resolves to a node and the collaborator rejects the move
  at that node's position, the root, the current path and the headers are unchanged, no
  error is raised, and the dirty flag is true.
\<close>

theorem makeMove_illegal:
  assumes "getNodeAtPath (Some (root s)) (position s) = Inr (Some n)"
    and "ch (fen (data n)) mv = IllegalMove"
  shows "treeReducer ch cl s (MAKE_MOVE mv) = Inr (s\<lparr>dirty := True\<rparr>)"
proof -
  from assms(1) obtain a where "getNodeRef (Some (root s)) (position s) = Inr (Some (a, n))"
    by (auto simp: getNodeAtPath_getNodeRef split: sum.splits option.splits)
  with assms(2) show ?thesis by (simp add: makeMove_def)
qed

theorem makeMove_illegal_counterexample:
  "rejectAll (fen (data (root (defaultTree None)))) (MoveString ''Ke2'') = IllegalMove \<and>
   \<not> dirty (defaultTree None) \<and>
   treeReducer rejectAll sampleClassify (defaultTree None) (MAKE_MOVE (MoveString ''Ke2'')) =
     Inr ((defaultTree None)\<lparr>dirty := True\<rparr>) \<and>
   treeReducer rejectAll sampleClassify (defaultTree None) (MAKE_MOVE (MoveString ''Ke2'')) \<noteq>
     Inr (defaultTree None)"
  by (simp add: rejectAll_def makeMove_def defaultTree_def)

theorem makeMove_illegal_witness:
  "getNodeAtPath (Some (root sampleState)) (position sampleState) = Inr (Some (root sampleState)) \<and>
   rejectAll (fen (data (root sampleState))) (MoveString ''Ke2'') = IllegalMove \<and>
   treeReducer rejectAll sampleClassify sampleState (MAKE_MOVE (MoveString ''Ke2'')) =
     Inr (sampleState\<lparr>dirty := True\<rparr>)"
proof -
  have p: "getNodeAtPath (Some (root sampleState)) (position sampleState) = Inr (Some (root sampleState))"
    by (simp add: sampleState_def defaultTree_def)
  have r: "rejectAll (fen (data (root sampleState))) (MoveString ''Ke2'') = IllegalMove"
    by (simp add: rejectAll_def)
  from makeMove_illegal [of sampleState "root sampleState" rejectAll "MoveString ''Ke2''"
      sampleClassify, OF p r] p r
  show ?thesis by simp
qed

text \<open>
  C3. The claim: \<^verbatim>\<open>DELETE_MOVE\<close> with a path that cannot be resolved changes nothing.
  The code at the path \<open>[5]\<close> on the sample tree, whose root has two children: the lenient
  lookup returns the root for the node and for its parent, \<^verbatim>\<open>findIndex\<close> gives \<open>-1\<close>,
  and \<^verbatim>\<open>splice(-1, 1)\<close> removes the last child B.
\<close>

theorem deleteMove_unresolved_removes_last_child:
  "walk (root sampleState) [5] = None \<and>
   treeReducer ch cl sampleState (DELETE_MOVE (Some [5])) =
     Inr (sampleState\<lparr>dirty := True, root := setChildren [nodeA] (root sampleState)\<rparr>)"
  by (simp add: deleteMove_def childRefs_def splice_rest_def splice_start_def
      adjustPosition_def setChildren_def sampleState_def defaultTree_def js_index_def)

text \<open>
  C4. The claim: resolving any path of integers returns a node, and no action raises an
  error. The code: the path \<open>[-1]\<close> resolves to \<^verbatim>\<open>undefined\<close>, the path \<open>[-1, 0]\<close>
  throws, and \<^verbatim>\<open>SET_SHAPES\<close> with an empty batch throws on a node that has a marker.
\<close>

theorem resolution_and_dispatch_not_total:
  "getNodeAtPath (Some (root (defaultTree None))) [- 1] = Inr None \<and>
   getNodeAtPath (Some (root (defaultTree None))) [- 1, 0] = Inl TypeError \<and>
   treeReducer ch cl (shapedState [redShape]) (SET_SHAPES []) = Inl TypeError"
  by (simp add: js_index_def setShapes_def shapedState_def setNodeShapes_def defaultTree_def)

text \<open>
  C5. After the deletion at a fully resolvable, non-empty path \<open>p\<close> (the node at \<open>p\<close>
  is taken out of its parent): if \<open>p\<close> is a prefix of the current path, the current path
  becomes \<open>p\<close> without its last index; otherwise, if the parent of \<open>p\<close> is a prefix of the
  current path and both have the same length, the last index of the current path becomes
  0; otherwise the current path is unchanged.
\<close>

theorem deleteMove_position:
  assumes "walk (root s) p = Some n" and "p \<noteq> []"
  shows "deleteMove s p =
    Inr (s\<lparr>root := updateAt (removeChild (nat (last p))) (root s) (map nat (butlast p)),
            position :=
              (if isPrefix p (position s) then butlast p
               else if isPrefix (butlast p) (position s) \<and> length (position s) = length p
                 then (position s)[length (position s) - 1 := 0]
                 else position s)\<rparr>)"
proof -
  from assms(2) obtain q k where p: "p = q @ [k]"
    by (cases p rule: rev_cases) auto
  with assms(1) obtain parent where
    parent: "walk (root s) q = Some parent" and k: "0 \<le> k" "nat k < length (children parent)"
    using walk_snoc_Some by blast
  have ref_n: "getNodeRef (Some (root s)) p = Inr (Some (map nat q @ [nat k], n))"
    using walk_getNodeRef [OF assms(1)] p by simp
  have ref_p: "getNodeRef (Some (root s)) (butlast p) = Inr (Some (map nat q, parent))"
    using walk_getNodeRef [OF parent] p by simp
  have at: "nodeAt (root s) (map nat q) = Some parent"
    using getNodeRef_nodeAt ref_p by blast
  have idx: "findIndex (\<lambda>x. x = map nat q @ [nat k]) (childRefs (map nat q) parent) = int (nat k)"
    using k by (simp only: findIndex_childRefs)
  have upd: "updateAt (setChildren (splice_rest (children parent) (int (nat k)))) (root s)
               (map nat q) =
             updateAt (removeChild (nat k)) (root s) (map nat q)"
    by (rule updateAt_cong_at [OF at])
      (simp add: setChildren_def removeChild_def splice_rest_at k)
  show ?thesis
    unfolding deleteMove_def
    by (simp only: ref_n ref_p sum.case option.case prod.case Let_def idx upd)
      (simp add: adjustPosition_def p)
qed

theorem deleteMove_position_witness:
  "walk (root sampleState) [0] = Some nodeA \<and>
   [0] \<noteq> ([] :: int list) \<and>
   deleteMove (sampleState\<lparr>position := [0, 0]\<rparr>) [0] =
     Inr (sampleState\<lparr>root := setChildren [nodeB] (root sampleState), position := []\<rparr>) \<and>
   deleteMove (sampleState\<lparr>position := [1]\<rparr>) [0] =
     Inr (sampleState\<lparr>root := setChildren [nodeB] (root sampleState), position := [0]\<rparr>)"
proof -
  have w: "walk (root sampleState) [0] = Some nodeA"
    by (simp add: js_index_def children_sample)
  have w1: "walk (root (sampleState\<lparr>position := [0, 0]\<rparr>)) [0] = Some nodeA" using w by simp
  have w2: "walk (root (sampleState\<lparr>position := [1]\<rparr>)) [0] = Some nodeA" using w by simp
  from deleteMove_position [OF w1] deleteMove_position [OF w2] w
  show ?thesis
    by (simp add: removeChild_def setChildren_def children_sample)
qed

text \<open>
  C6. For every pair of a path and a node that the traversal of a tree yields, resolving
  the path from the root returns that node; the reference returned is the path itself.
\<close>

theorem treeIterator_roundtrip:
  "\<forall>(p, n) \<in> set (treeIterator r).
     getNodeAtPath (Some r) p = Inr (Some n) \<and>
     getNodeRef (Some r) p = Inr (Some (map nat p, n))"
proof -
  have "walk r p = Some n" if "(p, n) \<in> set (treeIterator r)" for p n
    using treeIterator_loop_walk [of "[([], r)]" r p n] that
    by (auto simp: treeIterator_def)
  then show ?thesis
    by (auto simp: walk_getNodeAtPath walk_getNodeRef)
qed

theorem treeIterator_roundtrip_witness:
  "([0, 0], nodeA1) \<in> set (treeIterator (root sampleState)) \<and>
   getNodeAtPath (Some (root sampleState)) [0, 0] = Inr (Some nodeA1)"
proof -
  have m: "([0, 0], nodeA1) \<in> set (treeIterator (root sampleState))"
    by (simp add: treeIterator_sample)
  with treeIterator_roundtrip [of "root sampleState"] show ?thesis
    by fastforce
qed

text \<open>
  C7 (amended). The claim: for every node and every marker, two toggles of the marker
  return the markers of the node to their original value, and a toggle matches by the
  squares only. Because the match is by the squares only, the second toggle appends the
  toggled marker, not the one the first toggle removed, and a node with two markers on
  these squares loses both. As amended: when the current path resolves to a node that has
  at most one marker on the squares of \<open>m\<close>, two dispatches whose batches start with
  \<open>m\<close> raise no error, set the dirty flag and change nothing else but the markers of that
  node, which become \<open>toggledTwice m\<close> of what they were; when no marker is on these
  squares the state is otherwise exactly restored; and the set of markers is the original
  set exactly when every marker on these squares equals \<open>m\<close> in all its attributes.
\<close>

theorem toggle_twice:
  assumes ref: "getNodeRef (Some (root s)) (position s) = Inr (Some (a, n))"
    and dedup: "length (filter (sameSquares m) (shapes (data n))) \<le> 1"
  shows "toggleTwice ch cl s (m # rest1) (m # rest2) =
      Inr (s\<lparr>dirty := True,
              root := updateAt (setNodeShapes (toggledTwice m (shapes (data n)))) (root s) a\<rparr>) \<and>
    ((\<forall>x \<in> set (shapes (data n)). \<not> sameSquares m x) \<longrightarrow>
       toggleTwice ch cl s (m # rest1) (m # rest2) = Inr (s\<lparr>dirty := True\<rparr>)) \<and>
    (set (toggledTwice m (shapes (data n))) = set (shapes (data n))) =
      (\<forall>x \<in> set (shapes (data n)). sameSquares m x \<longrightarrow> x = m)"
proof -
  let ?sh = "shapes (data n)"
  let ?s0 = "s\<lparr>dirty := True\<rparr>"
  let ?s1 = "?s0\<lparr>root := updateAt (setNodeShapes (toggled m ?sh)) (root ?s0) a\<rparr>"
  have ref0: "getNodeRef (Some (root ?s0)) (position ?s0) = Inr (Some (a, n))"
    using ref by simp
  have step1: "treeReducer ch cl s (SET_SHAPES (m # rest1)) = Inr ?s1"
    using setShapes_toggled [OF ref0] by simp
  have ref1: "getNodeRef (Some (root ?s1)) (position ?s1) =
      Inr (Some (a, setNodeShapes (toggled m ?sh) n))"
    using getNodeRef_updateAt [OF ref, of "setNodeShapes (toggled m ?sh)"]
    by (simp add: setNodeShapes_def)
  have ref1': "getNodeRef (Some (root (?s1\<lparr>dirty := True\<rparr>))) (position (?s1\<lparr>dirty := True\<rparr>)) =
      Inr (Some (a, setNodeShapes (toggled m ?sh) n))"
    using ref1 by simp
  have sh1: "shapes (data (setNodeShapes (toggled m ?sh) n)) = toggled m ?sh"
    by (simp add: setNodeShapes_def)
  have comp: "(\<lambda>x. setNodeShapes sh2 (setNodeShapes sh1 x)) = setNodeShapes sh2" for sh1 sh2
    by (rule ext) (simp add: setNodeShapes_def)
  have step2: "treeReducer ch cl ?s1 (SET_SHAPES (m # rest2)) =
      Inr (s\<lparr>dirty := True,
              root := updateAt (setNodeShapes (toggledTwice m ?sh)) (root s) a\<rparr>)"
    using setShapes_toggled [OF ref1', of m rest2]
    by (simp add: sh1 toggled_toggled [OF dedup] updateAt_updateAt comp)
  have A: "toggleTwice ch cl s (m # rest1) (m # rest2) =
      Inr (s\<lparr>dirty := True,
              root := updateAt (setNodeShapes (toggledTwice m ?sh)) (root s) a\<rparr>)"
    unfolding toggleTwice_def by (simp only: step1 sum.case step2)
  have at: "nodeAt (root s) a = Some n" using getNodeRef_nodeAt [OF ref] .
  have B: "toggleTwice ch cl s (m # rest1) (m # rest2) = Inr (s\<lparr>dirty := True\<rparr>)"
    if "\<forall>x \<in> set ?sh. \<not> sameSquares m x"
  proof -
    from that have "toggledTwice m ?sh = ?sh" by (simp add: toggledTwice_def)
    moreover have "setNodeShapes ?sh n = n" by (cases n) (simp add: setNodeShapes_def)
    ultimately have "updateAt (setNodeShapes (toggledTwice m ?sh)) (root s) a = root s"
      using updateAt_same [OF at] by simp
    with A show ?thesis by simp
  qed
  have C: "(set (toggledTwice m ?sh) = set ?sh) = (\<forall>x \<in> set ?sh. sameSquares m x \<longrightarrow> x = m)"
  proof (cases "\<exists>x \<in> set ?sh. sameSquares m x")
    case False
    then show ?thesis by (auto simp: toggledTwice_def)
  next
    case True
    then have tt: "set (toggledTwice m ?sh) = insert m {x \<in> set ?sh. \<not> sameSquares m x}"
      by (auto simp: toggledTwice_def)
    have mm: "sameSquares m m" by (simp add: sameSquares_def)
    show ?thesis
    proof
      assume eq: "set (toggledTwice m ?sh) = set ?sh"
      with tt have min: "m \<in> set ?sh" by auto
      show "\<forall>x \<in> set ?sh. sameSquares m x \<longrightarrow> x = m"
      proof (intro ballI impI)
        fix x assume x: "x \<in> set ?sh" "sameSquares m x"
        show "x = m"
        proof (rule ccontr)
          assume "x \<noteq> m"
          with x min mm have "{x, m} \<subseteq> set (filter (sameSquares m) ?sh)" by auto
          with \<open>x \<noteq> m\<close> have "2 \<le> card (set (filter (sameSquares m) ?sh))"
            by (metis card_2_iff card_mono List.finite_set)
          also have "\<dots> \<le> length (filter (sameSquares m) ?sh)" by (rule card_length)
          finally show False using dedup by simp
        qed
      qed
    next
      assume all: "\<forall>x \<in> set ?sh. sameSquares m x \<longrightarrow> x = m"
      with True have "m \<in> set ?sh" by auto
      with all tt show "set (toggledTwice m ?sh) = set ?sh" by auto
    qed
  qed
  from A B C show ?thesis by blast
qed

theorem toggle_twice_counterexample:
  "shapes (data (root (shapedState [redShape]))) = [redShape] \<and>
   toggleTwice rejectAll sampleClassify (shapedState [redShape]) [greenShape] [greenShape] =
     Inr ((shapedState [greenShape])\<lparr>dirty := True\<rparr>) \<and>
   shapes (data (root (shapedState [greenShape]))) = [greenShape] \<and>
   set [greenShape] \<noteq> set [redShape]"
  by (simp add: toggleTwice_def setShapes_def shapedState_def setNodeShapes_def defaultTree_def
      js_index_def sameSquares_def redShape_def greenShape_def splice_rest_def splice_start_def)

theorem toggle_twice_witness:
  "getNodeRef (Some (root (defaultTree None))) (position (defaultTree None)) =
     Inr (Some ([], root (defaultTree None))) \<and>
   length (filter (sameSquares redShape) (shapes (data (root (defaultTree None))))) \<le> 1 \<and>
   toggleTwice rejectAll sampleClassify (defaultTree None) [redShape] [redShape] =
     Inr ((defaultTree None)\<lparr>dirty := True\<rparr>)"
proof -
  have ref: "getNodeRef (Some (root (defaultTree None))) (position (defaultTree None)) =
     Inr (Some ([], root (defaultTree None)))"
    by (simp add: defaultTree_def)
  have sh: "shapes (data (root (defaultTree None))) = []"
    by (simp add: defaultTree_def)
  have dedup: "length (filter (sameSquares redShape) (shapes (data (root (defaultTree None))))) \<le> 1"
    by (simp add: sh)
  from toggle_twice [OF ref dedup, of rejectAll sampleClassify "[]" "[]",
      THEN conjunct2, THEN conjunct1] ref dedup sh
  show ?thesis by simp
qed

text \<open>
  C8. Applying an analysis of length \<open>N\<close> to a tree whose mainline has at least \<open>N\<close>
  plies: the first \<open>N\<close> mainline nodes exist (addresses \<open>[0]\<close>, \<open>[0, 0]\<close>, ...), the
  shape of the tree is unchanged, and the record of a node changes only at these
  addresses. There, at ply \<open>i\<close> (counted from 0), the score is the entry's, the
  annotation is the classification of the previous entry's score (0 centipawns for the
  first ply) against the entry's for white at even and black at odd \<open>i\<close>, and both
  comments are "Novelty" when the entry is flagged, and unchanged otherwise.
\<close>

theorem addAnalysis_mainline:
  assumes "length analysis \<le> countMainPly (root s)"
  shows "treeReducer ch cl s (ADD_ANALYSIS analysis) =
      Inr (s\<lparr>dirty := True, root := root (addAnalysis cl s analysis)\<rparr>) \<and>
    (\<forall>k. 1 \<le> k \<and> k \<le> length analysis \<longrightarrow> dataAt (root s) (replicate k 0) \<noteq> None) \<and>
    (\<forall>a. dataAt (root (addAnalysis cl s analysis)) a =
       map_option
         (\<lambda>d. if a \<noteq> [] \<and> a = replicate (length a) 0 \<and> length a \<le> length analysis
              then
                (let i = length a - 1; e = analysis ! i;
                     prev = (if i = 0 then \<lparr>score_type = ''cp'', score_value = 0\<rparr>
                             else best_score (analysis ! (i - 1)))
                 in d\<lparr>score := Some (best_score e),
                       annotation := cl prev (best_score e) (if even i then Color_w else Color_b),
                       commentHTML := (if novelty e then ''Novelty'' else commentHTML d),
                       commentText := (if novelty e then ''Novelty'' else commentText d)\<rparr>)
              else d)
         (dataAt (root s) a))"
proof -
  have A: "treeReducer ch cl s (ADD_ANALYSIS analysis) =
      Inr (s\<lparr>dirty := True, root := root (addAnalysis cl s analysis)\<rparr>)"
    by (simp add: addAnalysis_def split: list.splits)
  have B: "dataAt (root s) (replicate k 0) \<noteq> None" if "1 \<le> k \<and> k \<le> length analysis" for k
  proof -
    from that assms have "k \<le> countMainPly (root s)" by simp
    then have "nodeAt (root s) (replicate k 0) \<noteq> None"
      using mainline_exists [of "root s" k] by blast
    then show ?thesis by (simp add: dataAt_def)
  qed
  have C: "dataAt (root (addAnalysis cl s analysis)) a =
       map_option
         (\<lambda>d. if a \<noteq> [] \<and> a = replicate (length a) 0 \<and> length a \<le> length analysis
              then analysed cl analysis (length a - 1) d else d)
         (dataAt (root s) a)" for a
  proof (cases "children (root s)")
    case Nil
    have "dataAt (root s) a = None" if "a \<noteq> []"
      using that Nil by (cases a) (simp_all add: dataAt_def)
    with Nil show ?thesis
      by (cases "a = []") (simp_all add: addAnalysis_def dataAt_def)
  next
    case (Cons c cs)
    show ?thesis
    proof (cases a)
      case Nil
      with Cons show ?thesis by (simp add: addAnalysis_def dataAt_def)
    next
      case (Cons j a')
      show ?thesis
      proof (cases j)
        case 0
        have "dataAt (root (addAnalysis cl s analysis)) a =
              dataAt (addAnalysis_loop cl analysis 0 c) a'"
          using 0 Cons \<open>children (root s) = c # cs\<close> by (simp add: addAnalysis_def dataAt_def)
        moreover have "dataAt (root s) a = dataAt c a'"
          using 0 Cons \<open>children (root s) = c # cs\<close> by (simp add: dataAt_def)
        moreover have "mainlineData cl analysis 0 a' =
           (\<lambda>d. if a \<noteq> [] \<and> a = replicate (length a) 0 \<and> length a \<le> length analysis
              then analysed cl analysis (length a - 1) d else d)"
          using 0 Cons by (intro ext) (auto simp: mainlineData_def)
        ultimately show ?thesis by (simp add: dataAt_addAnalysis_loop)
      next
        case (Suc j')
        with Cons \<open>children (root s) = c # cs\<close> show ?thesis
          by (simp add: addAnalysis_def dataAt_def option.map_ident cong: option.map_cong)
      qed
    qed
  qed
  from A B C [unfolded analysed_explicit] show ?thesis
    unfolding Let_def by blast
qed

theorem addAnalysis_mainline_witness:
  "length sampleAnalysis \<le> countMainPly (root sampleState) \<and>
   dataAt (root (addAnalysis sampleClassify sampleState sampleAnalysis)) [0, 0] =
     Some ((data nodeA1)\<lparr>score := Some \<lparr>score_type = ''cp'', score_value = - 50\<rparr>,
                          annotation := Mistake,
                          commentHTML := ''Novelty'', commentText := ''Novelty''\<rparr>) \<and>
   dataAt (root (addAnalysis sampleClassify sampleState sampleAnalysis)) [1] =
     Some (data nodeB)"
proof -
  have h: "length sampleAnalysis \<le> countMainPly (root sampleState)"
    by (simp add: sampleAnalysis_def countMainPly_def sampleState_def defaultTree_def
        setChildren_def nodeA_def nodeA1_def nodeB_def createNode_def)
  have d1: "dataAt (root sampleState) [0, 0] = Some (data nodeA1)"
    by (simp add: dataAt_def children_sample children_nodeA)
  have d2: "dataAt (root sampleState) [1] = Some (data nodeB)"
    by (simp add: dataAt_def children_sample)
  note inst = addAnalysis_mainline [OF h, of rejectAll sampleClassify, THEN conjunct2, THEN conjunct2]
  from inst [THEN spec, of "[0, 0]"] inst [THEN spec, of "[1]"] h d1 d2
  show ?thesis
    by (simp add: sampleAnalysis_def sampleClassify_def numeral_2_eq_2)
qed

text \<open>
  C9. The claim: after \<^verbatim>\<open>SAVE\<close>, \<^verbatim>\<open>SET_STATE\<close> or \<^verbatim>\<open>RESET\<close> the dirty flag is
  false. The code of \<^verbatim>\<open>SET_STATE\<close> clears the flag of the state it discards and returns
  the payload as it is: a payload whose flag is set gives a state whose flag is set.
\<close>

theorem set_state_keeps_payload_dirty:
  "dirty dirtyState \<and> treeReducer ch cl state (SET_STATE dirtyState) = Inr dirtyState"
  by (simp add: dirtyState_def)

text \<open>
  C10. \<^verbatim>\<open>DELETE_MOVE\<close> with the empty path (given as the payload, or taken from an empty
  current path when there is no payload): the index search of the root among its own
  children gives \<open>-1\<close>, the last child of the root is removed (nothing when there is
  none), and the current path is empty.
\<close>

theorem deleteMove_empty_path:
  assumes "payload = Some [] \<or> (payload = None \<and> position s = [])"
  shows "findIndex (\<lambda>n. n = []) (childRefs [] (root s)) = - 1 \<and>
    treeReducer ch cl s (DELETE_MOVE payload) =
      Inr (s\<lparr>dirty := True,
              root := TreeNode (data (root s)) (butlast (children (root s))),
              position := []\<rparr>)"
proof -
  from assms have path: "(case payload of None \<Rightarrow> position s | Some path \<Rightarrow> path) = []"
    by auto
  show ?thesis
    by (simp add: path deleteMove_def findIndex_childRefs_self splice_rest_last
        adjustPosition_def setChildren_def)
qed

theorem deleteMove_empty_path_witness:
  "position sampleState = [] \<and>
   treeReducer rejectAll sampleClassify sampleState (DELETE_MOVE None) =
     Inr (sampleState\<lparr>dirty := True, root := setChildren [nodeA] (root sampleState),
                      position := []\<rparr>)"
proof -
  have p: "position sampleState = []" by (simp add: sampleState_def defaultTree_def)
  from deleteMove_empty_path [of None sampleState rejectAll sampleClassify] p
  show ?thesis by (simp add: children_sample setChildren_def)
qed

end
